theory Spec2Isabelle
  imports Main "HOL-Library.Word" "HOL-Library.Sublist"
begin

section \<open>The log driver of driver.go\<close>

text \<open>
  The file driver.go holds the registry of log pairs (\<open>driver\<close>) and its three
  operations \<open>StartLogging\<close>, \<open>StopLogging\<close> and \<open>ReadLogs\<close>. The operations are
  modelled sequentially: each takes the state before the call and returns its result
  together with the state after it. The mutex \<open>d.mu\<close> is not modelled; a map access
  under the lock is one step of the model.
\<close>

subsection \<open>Errors\<close>

text \<open>
  Go's \<open>error\<close> values. The three errors built by \<open>fmt.Errorf\<close> in driver.go carry the
  name the specification gives them; \<open>Wrap\<close> and \<open>Wrapf\<close> are \<open>errors.Wrap\<close> and
  \<open>errors.Wrapf\<close> with the message of the source (for \<open>Wrapf\<close> the format prefix and
  the quoted file); \<open>EOF\<close> and \<open>ErrClosedPipe\<close> are the two errors of package \<open>io\<close>;
  \<open>External\<close> is any error handed over by a collaborator.
\<close>

datatype err =
    AlreadyExists string          \<comment> \<open>\<open>fmt.Errorf("logger for %q already exists", file)\<close>\<close>
  | NotFound string               \<comment> \<open>\<open>fmt.Errorf("logger does not exist for %s", id)\<close>\<close>
  | UnsupportedOperation          \<comment> \<open>\<open>fmt.Errorf("logger does not support reading")\<close>\<close>
  | Wrap err string
  | Wrapf err string string
  | EOF
  | ErrClosedPipe
  | External string

subsection \<open>Data\<close>

type_synonym byte = "8 word"

text \<open>\<open>logger.Info\<close>, with the three fields driver.go reads.\<close>

record Info =
  ContainerID :: string
  LogPath :: string
  Config :: "(string \<times> string) list"

text \<open>\<open>logger.ReadConfig\<close>; driver.go only passes it on.\<close>

record ReadConfig =
  Tail :: int
  Follow :: bool

text \<open>
  A value of the interface \<open>logger.Logger\<close>: the identity of the object and whether
  its dynamic type also implements \<open>logger.LogReader\<close> (what the type assertion in
  \<open>ReadLogs\<close> tests).
\<close>

record Logger =
  logger_id :: nat
  is_LogReader :: bool

text \<open>
  \<open>logPair\<close>. The maps of the driver hold pointers to log pairs; a pair is never
  written after its creation, so a pointer is modelled by the pair's contents together
  with \<open>addr\<close>, the address of the cell that \<open>&logPair{...}\<close> allocated. The stream is
  the handle returned by \<open>fifo.OpenFifo\<close>.
\<close>

record logPair =
  addr :: nat
  jsonl :: Logger
  splunkl :: Logger
  stream :: nat
  info :: Info

text \<open>
  \<open>driver\<close>: \<open>logs\<close> is keyed by the fifo file, \<open>idx\<close> by the container id. (The field
  \<open>logger\<close> of the struct is never used in driver.go.)
\<close>

record driver =
  logs :: "string \<rightharpoonup> logPair"
  idx :: "string \<rightharpoonup> logPair"

definition newDriver :: driver where
  "newDriver = \<lparr>logs = Map.empty, idx = Map.empty\<rparr>"

subsection \<open>The output pipe of \<open>ReadLogs\<close>\<close>

text \<open>
  \<open>logdriver.LogEntry\<close>, the message written to the output stream, and
  \<open>logger.Message\<close>, the entry received from the log watcher. \<open>Time\<close> is \<open>time.Time\<close>
  as seconds since the Unix epoch and nanoseconds within the second; \<open>UnixNano\<close>
  computes in \<open>int64\<close>, as Go does.
\<close>

record LogEntry =
  Source :: string
  TimeNano :: "64 word"
  Line :: "byte list"
  Partial :: bool

record Time =
  unixSec :: "64 word"
  nsec :: "32 word"

definition UnixNano :: "Time \<Rightarrow> 64 word" where
  "UnixNano t = unixSec t * 1000000000 + scast (nsec t)"

record Message =
  msg_Line :: "byte list"
  msg_Source :: string
  msg_Timestamp :: Time
  msg_Partial :: bool

text \<open>The zero value of \<open>LogEntry\<close>: \<open>var buf logdriver.LogEntry\<close> and \<open>buf.Reset()\<close>.\<close>

definition LogEntry_zero :: LogEntry where
  "LogEntry_zero = \<lparr>Source = [], TimeNano = 0, Line = [], Partial = False\<rparr>"

definition Reset :: "LogEntry \<Rightarrow> LogEntry" where
  "Reset m = LogEntry_zero"

text \<open>
  The pipe of \<open>io.Pipe()\<close>. A frame is what one \<open>WriteMsg\<close> of the uint32-delimited
  big-endian encoder writes (the byte layout of a frame belongs to the packages
  \<open>protoio\<close> and \<open>logdriver\<close>; a frame is represented by the message it encodes). The
  pipe has no buffer: a write blocks until the reader has taken the frame or a side of
  the pipe is closed. \<open>written\<close> is the sequence of frames the reader has taken;
  \<open>offered\<close> is the frame of a write that is blocked; \<open>rwait\<close> says that the reader is
  blocked in a read, waiting for the next frame. \<open>werr\<close> and \<open>rerr\<close> are the errors the
  write side and the read side were closed with; the first close of a side wins, as
  package \<open>io\<close> documents (\<open>CloseWithError\<close> never overwrites the previous error).
\<close>

record pipe =
  written :: "LogEntry list"
  offered :: "LogEntry option"
  rwait :: bool
  werr :: "err option"
  rerr :: "err option"

definition new_pipe :: pipe where
  "new_pipe = \<lparr>written = [], offered = None, rwait = False, werr = None, rerr = None\<rparr>"

text \<open>\<open>w.CloseWithError(e)\<close>; \<open>w.Close()\<close> is \<open>closeWrite None\<close> (a nil error closes with \<open>EOF\<close>).\<close>

definition closeWrite :: "err option \<Rightarrow> pipe \<Rightarrow> pipe" where
  "closeWrite e p =
     (if werr p = None then p\<lparr>werr := Some (case e of None \<Rightarrow> EOF | Some x \<Rightarrow> x)\<rparr> else p)"

text \<open>\<open>r.CloseWithError(e)\<close> by the reader; \<open>r.Close()\<close> is \<open>closeRead None\<close>.\<close>

definition closeRead :: "err option \<Rightarrow> pipe \<Rightarrow> pipe" where
  "closeRead e p =
     (if rerr p = None then p\<lparr>rerr := Some (case e of None \<Rightarrow> ErrClosedPipe | Some x \<Rightarrow> x)\<rparr>
      else p)"

definition pipe_done :: "pipe \<Rightarrow> bool" where
  "pipe_done p = (werr p \<noteq> None \<or> rerr p \<noteq> None)"

text \<open>The error a write to a closed pipe returns, and the one a read from it returns.\<close>

definition writeCloseError :: "pipe \<Rightarrow> err" where
  "writeCloseError p =
     (case werr p of
        None \<Rightarrow> (case rerr p of Some r \<Rightarrow> r | None \<Rightarrow> ErrClosedPipe)
      | Some _ \<Rightarrow> ErrClosedPipe)"

definition readCloseError :: "pipe \<Rightarrow> err" where
  "readCloseError p =
     (case rerr p of
        None \<Rightarrow> (case werr p of Some e \<Rightarrow> e | None \<Rightarrow> ErrClosedPipe)
      | Some _ \<Rightarrow> ErrClosedPipe)"

text \<open>
  The reader takes the frame of a blocked write (the write then returns nil); and the
  reader calls \<open>Read\<close> while no write is blocked, and waits.
\<close>

definition takeOffered :: "pipe \<Rightarrow> pipe" where
  "takeOffered p =
     (case offered p of
        Some m \<Rightarrow> p\<lparr>written := written p @ [m], offered := None\<rparr>
      | None \<Rightarrow> p)"

definition readerWait :: "pipe \<Rightarrow> pipe" where
  "readerWait p = (if pipe_done p then p else p\<lparr>rwait := True\<rparr>)"

text \<open>
  \<open>enc.WriteMsg(&buf)\<close>. Once either side is closed the call returns the pipe's close
  error. On an open pipe the call returns nil at once when the reader is waiting in a
  read, which takes the frame; otherwise it blocks with the frame on offer.
\<close>

datatype write_outcome = WriteReturned "err option" | WriteBlocked

definition WriteMsg :: "LogEntry \<Rightarrow> pipe \<Rightarrow> write_outcome \<times> pipe" where
  "WriteMsg m p =
     (if pipe_done p then (WriteReturned (Some (writeCloseError p)), p)
      else if rwait p then (WriteReturned None, p\<lparr>written := written p @ [m], rwait := False\<rparr>)
      else (WriteBlocked, p\<lparr>offered := Some m\<rparr>))"

subsection \<open>The state around the driver\<close>

text \<open>
  A goroutine launched by the driver: the message processor of a log pair, or the
  read-back bridge of \<open>ReadLogs\<close> with its log reader, read configuration and pipe.
\<close>

datatype task =
    Process logPair
  | Bridge Logger ReadConfig nat

text \<open>
  The driver and what its operations act on: the next free address for a log pair, the
  loggers and streams that are open, the pipes created so far (a pipe handle is its
  index) and the goroutines launched so far.
\<close>

record world =
  drv :: driver
  next_addr :: nat
  loggers_open :: "Logger set"
  streams_open :: "nat set"
  pipes :: "pipe list"
  tasks :: "task list"

definition init_world :: world where
  "init_world = \<lparr>drv = newDriver, next_addr = 0, loggers_open = {}, streams_open = {},
     pipes = [], tasks = []\<rparr>"

text \<open>
  The collaborators \<open>StartLogging\<close> calls, whose code is outside driver.go; each
  is a parameter giving the outcome of the call: \<open>filepath.Join\<close>, \<open>filepath.Dir\<close>,
  \<open>os.MkdirAll\<close>, \<open>jsonfilelog.New\<close>, \<open>ValidateLogOpt\<close>, \<open>New\<close> (the Splunk logger) and
  \<open>fifo.OpenFifo\<close>.
\<close>

record env =
  filepath_Join :: "string \<Rightarrow> string \<Rightarrow> string"
  filepath_Dir :: "string \<Rightarrow> string"
  MkdirAll :: "string \<Rightarrow> err option"
  jsonfilelog_New :: "Info \<Rightarrow> err + Logger"
  ValidateLogOpt :: "(string \<times> string) list \<Rightarrow> err option"
  New :: "Info \<Rightarrow> err + Logger"
  OpenFifo :: "string \<Rightarrow> err + nat"

subsection \<open>\<open>StartLogging\<close>\<close>

text \<open>The first statement after the duplicate check: an empty \<open>LogPath\<close> gets its default.\<close>

definition default_LogPath :: "env \<Rightarrow> Info \<Rightarrow> Info" where
  "default_LogPath e logCtx =
     (if LogPath logCtx = []
      then logCtx\<lparr>LogPath := filepath_Join e ''/var/log/docker'' (ContainerID logCtx)\<rparr>
      else logCtx)"

definition StartLogging :: "env \<Rightarrow> string \<Rightarrow> Info \<Rightarrow> world \<Rightarrow> err option \<times> world" where
  "StartLogging e file logCtx0 w =
    (if logs (drv w) file \<noteq> None then (Some (AlreadyExists file), w)
     else
       let logCtx = default_LogPath e logCtx0 in
       case MkdirAll e (filepath_Dir e (LogPath logCtx)) of
         Some er \<Rightarrow> (Some (Wrap er ''error setting up logger dir''), w)
       | None \<Rightarrow>
       (case jsonfilelog_New e logCtx of
         Inl er \<Rightarrow> (Some (Wrap er ''error creating jsonfile logger''), w)
       | Inr jl \<Rightarrow>
         let w1 = w\<lparr>loggers_open := insert jl (loggers_open w)\<rparr> in
         (case ValidateLogOpt e (Config logCtx) of
           Some er \<Rightarrow> (Some (Wrapf er ''error options logger splunk: '' file), w1)
         | None \<Rightarrow>
           (case New e logCtx of
             Inl er \<Rightarrow> (Some (Wrap er ''error creating splunk logger''), w1)
           | Inr sl \<Rightarrow>
             let w2 = w1\<lparr>loggers_open := insert sl (loggers_open w1)\<rparr> in
             (case OpenFifo e file of
               Inl er \<Rightarrow> (Some (Wrapf er ''error opening logger fifo: '' file), w2)
             | Inr f \<Rightarrow>
               let w3 = w2\<lparr>streams_open := insert f (streams_open w2)\<rparr>;
                   lf = \<lparr>addr = next_addr w3, jsonl = jl, splunkl = sl, stream = f,
                          info = logCtx\<rparr>;
                   w4 = w3\<lparr>next_addr := Suc (next_addr w3),
                          drv := (drv w3)\<lparr>logs := (logs (drv w3))(file \<mapsto> lf),
                                    idx := (idx (drv w3))(ContainerID logCtx \<mapsto> lf)\<rparr>\<rparr>
               in (None, w4\<lparr>tasks := tasks w4 @ [Process lf]\<rparr>))))))"

subsection \<open>\<open>StopLogging\<close>\<close>

definition StopLogging :: "string \<Rightarrow> world \<Rightarrow> err option \<times> world" where
  "StopLogging file w =
    (case logs (drv w) file of
       Some lf \<Rightarrow>
         (None, w\<lparr>streams_open := streams_open w - {stream lf},
                   drv := (drv w)\<lparr>logs := (logs (drv w))(file := None)\<rparr>\<rparr>)
     | None \<Rightarrow> (None, w))"

subsection \<open>\<open>ReadLogs\<close>\<close>

text \<open>
  The call itself: the lookup, the pipe, the type assertion and the launch of the
  goroutine. On success the result is the handle of the pipe's read side.
\<close>

definition ReadLogs :: "Info \<Rightarrow> ReadConfig \<Rightarrow> world \<Rightarrow> (err + nat) \<times> world" where
  "ReadLogs ic config w =
    (case idx (drv w) (ContainerID ic) of
       None \<Rightarrow> (Inl (NotFound (ContainerID ic)), w)
     | Some lf \<Rightarrow>
         let r = length (pipes w);
             w1 = w\<lparr>pipes := pipes w @ [new_pipe]\<rparr>
         in if \<not> is_LogReader (jsonl lf) then (Inl UnsupportedOperation, w1)
            else (Inr r, w1\<lparr>tasks := tasks w1 @ [Bridge (jsonl lf) config r]\<rparr>))"

text \<open>
  The goroutine. What happens to it is a sequence of events: an outcome of its
  \<open>select\<close> (an entry on \<open>watcher.Msg\<close>, \<open>watcher.Msg\<close> closed, or a value on
  \<open>watcher.Err\<close>, which may be nil), the reader reading a frame, or the reader closing
  its side of the pipe. The goroutine is either in its \<open>select\<close> or blocked in
  \<open>WriteMsg\<close> (then \<open>offered\<close> holds the frame). A blocked write returns nil when the
  reader reads, and returns the close error when the reader closes its side. The
  goroutine reaches its \<open>select\<close> only after \<open>WriteMsg\<close> has returned nil, so an outcome
  of \<open>select\<close> that follows a blocked write tells that the reader has taken the frame.
  When the events run out, the goroutine is blocked, in \<open>select\<close> or in \<open>WriteMsg\<close>.
\<close>

datatype event =
    RecvMsg Message
  | MsgClosed
  | RecvErr "err option"
  | ReaderRead
  | ReaderClose "err option"

datatype status = Blocked | Returned

fun bridge_loop :: "event list \<Rightarrow> LogEntry \<Rightarrow> pipe \<Rightarrow> status \<times> pipe" where
  "bridge_loop [] buf p = (Blocked, p)"
| "bridge_loop (ReaderRead # evs) buf p =
     (if offered p = None then bridge_loop evs buf (readerWait p)
      else bridge_loop evs (Reset buf) (takeOffered p))"
| "bridge_loop (ReaderClose e # evs) buf p =
     (if offered p = None then bridge_loop evs buf (closeRead e p)
      else let p1 = closeRead e (p\<lparr>offered := None\<rparr>)
           in (Returned, closeWrite (Some (writeCloseError p1)) p1))"
| "bridge_loop (MsgClosed # evs) buf p = (Returned, closeWrite None (takeOffered p))"
| "bridge_loop (RecvMsg msg # evs) buf p =
     (let buf0 = (if offered p = None then buf else Reset buf);
          buf1 = buf0\<lparr>Line := msg_Line msg, Partial := msg_Partial msg,
                      TimeNano := UnixNano (msg_Timestamp msg), Source := msg_Source msg\<rparr>
      in case WriteMsg buf1 (takeOffered p) of
           (WriteReturned (Some er), p1) \<Rightarrow> (Returned, closeWrite (Some er) p1)
         | (WriteReturned None, p1) \<Rightarrow> bridge_loop evs (Reset buf1) p1
         | (WriteBlocked, p1) \<Rightarrow> bridge_loop evs buf1 p1)"
| "bridge_loop (RecvErr er # evs) buf p = (Returned, closeWrite er (takeOffered p))"

text \<open>
  The whole goroutine on the pipe \<open>p\<close>: the subscription \<open>lr.ReadLogs(config)\<close>, the
  loop, and on return the deferred \<open>watcher.Close()\<close> and \<open>enc.Close()\<close> (which closes
  the pipe's write side once more).
\<close>

record bridge_result =
  exited :: bool
  out :: pipe
  watcher_closed :: bool

definition bridge :: "event list \<Rightarrow> pipe \<Rightarrow> bridge_result" where
  "bridge evs p =
     (case bridge_loop evs LogEntry_zero p of
        (Returned, p1) \<Rightarrow> \<lparr>exited = True, out = closeWrite None p1, watcher_closed = True\<rparr>
      | (Blocked, p1) \<Rightarrow> \<lparr>exited = False, out = p1, watcher_closed = False\<rparr>)"

subsection \<open>Sequences of operations\<close>

datatype op =
    Start env string Info
  | Stop string
  | Read Info ReadConfig

fun exec :: "op \<Rightarrow> world \<Rightarrow> world" where
  "exec (Start e file logCtx) w = snd (StartLogging e file logCtx w)"
| "exec (Stop file) w = snd (StopLogging file w)"
| "exec (Read ic config) w = snd (ReadLogs ic config w)"

definition run :: "op list \<Rightarrow> world \<Rightarrow> world" where
  "run ops w = foldl (\<lambda>s o'. exec o' s) w ops"

subsection \<open>The registry invariant, in the words of the specification\<close>

text \<open>
  The condition under which the specification wants a log pair for \<open>file\<close> in the
  stream-keyed map after the operations \<open>ops\<close>, run from the state \<open>w\<close>: some operation
  of \<open>ops\<close> is a start for \<open>file\<close> that succeeded, and no later operation of \<open>ops\<close> is
  a stop for \<open>file\<close>.
\<close>

definition registered :: "op list \<Rightarrow> world \<Rightarrow> string \<Rightarrow> bool" where
  "registered ops w file \<longleftrightarrow>
     (\<exists>i e c. i < length ops \<and> ops ! i = Start e file c
        \<and> fst (StartLogging e file c (run (take i ops) w)) = None
        \<and> (\<forall>j. i < j \<and> j < length ops \<longrightarrow> ops ! j \<noteq> Stop file))"

subsection \<open>The entries of a read-back, in the words of the specification\<close>

text \<open>
  The frame that corresponds to an entry: its source, its timestamp in nanoseconds,
  its line and its partial flag.
\<close>

abbreviation frame_of :: "Message \<Rightarrow> LogEntry" where
  "frame_of m \<equiv> \<lparr>Source = msg_Source m, TimeNano = UnixNano (msg_Timestamp m),
     Line = msg_Line m, Partial = msg_Partial m\<rparr>"

text \<open>
  The entries delivered on \<open>watcher.Msg\<close> in a sequence of events, up to the close of the
  channel or a value on \<open>watcher.Err\<close>; and the frame of a pipe that is still waiting for
  the reader.
\<close>

fun received :: "event list \<Rightarrow> Message list" where
  "received [] = []"
| "received (RecvMsg m # evs) = m # received evs"
| "received (MsgClosed # evs) = []"
| "received (RecvErr e # evs) = []"
| "received (ReaderRead # evs) = received evs"
| "received (ReaderClose e # evs) = received evs"

definition in_flight :: "pipe \<Rightarrow> LogEntry list" where
  "in_flight p = (case offered p of Some m \<Rightarrow> [m] | None \<Rightarrow> [])"

subsection \<open>Addresses of log pairs\<close>

text \<open>
  Every pair held by \<open>logs\<close> lies below the next free address: the invariant behind the
  freshness of \<open>&logPair{...}\<close>.
\<close>

definition addrs_below :: "world \<Rightarrow> bool" where
  "addrs_below w \<longleftrightarrow> (\<forall>f p. logs (drv w) f = Some p \<longrightarrow> addr p < next_addr w)"

subsection \<open>Example values\<close>

text \<open>
  Collaborators that all succeed (the \<open>n\<close>-th call hands out the loggers \<open>2n\<close> and
  \<open>2n + 1\<close> and the stream \<open>n\<close>) and the metadata of a container \<open>c1\<close> with no log
  path set.
\<close>

definition ex_env :: "nat \<Rightarrow> env" where
  "ex_env n = \<lparr>filepath_Join = (\<lambda>a b. a @ ''/'' @ b), filepath_Dir = (\<lambda>p. ''/var/log/docker''),
     MkdirAll = (\<lambda>p. None),
     jsonfilelog_New = (\<lambda>i. Inr \<lparr>logger_id = 2 * n, is_LogReader = True\<rparr>),
     ValidateLogOpt = (\<lambda>c. None),
     New = (\<lambda>i. Inr \<lparr>logger_id = 2 * n + 1, is_LogReader = False\<rparr>),
     OpenFifo = (\<lambda>f. Inr n)\<rparr>"

definition ex_info :: Info where
  "ex_info = \<lparr>ContainerID = ''c1'', LogPath = [], Config = []\<rparr>"

text \<open>An entry of the log watcher: the line \<open>hi\<close> on stdout.\<close>

definition ex_msg :: Message where
  "ex_msg = \<lparr>msg_Line = [104, 105], msg_Source = ''stdout'',
     msg_Timestamp = \<lparr>unixSec = 1500000000, nsec = 7\<rparr>, msg_Partial = False\<rparr>"

section \<open>Properties\<close>

subsection \<open>Facts about the operations\<close>

lemma StartLogging_exists:
  "logs (drv w) file = Some lf \<Longrightarrow> StartLogging e file logCtx w = (Some (AlreadyExists file), w)"
  by (simp add: StartLogging_def)

lemma StartLogging_fail_drv:
  "fst (StartLogging e file c w) = Some er \<Longrightarrow> drv (snd (StartLogging e file c w)) = drv w"
  by (auto simp: StartLogging_def Let_def split: option.splits sum.splits if_splits)

lemma StartLogging_logs_other:
  "file' \<noteq> file \<Longrightarrow> logs (drv (snd (StartLogging e file c w))) file' = logs (drv w) file'"
  by (auto simp: StartLogging_def Let_def split: option.splits sum.splits if_splits)

lemma StartLogging_ok_logs:
  "fst (StartLogging e file c w) = None \<Longrightarrow> logs (drv (snd (StartLogging e file c w))) file \<noteq> None"
  by (auto simp: StartLogging_def Let_def split: option.splits sum.splits if_splits)

lemma StopLogging_logs:
  "logs (drv (snd (StopLogging file w))) = (logs (drv w))(file := None)"
  by (auto simp: StopLogging_def split: option.splits)

lemma ReadLogs_drv: "drv (snd (ReadLogs ic config w)) = drv w"
  by (auto simp: ReadLogs_def Let_def split: option.splits)

lemma run_snoc: "run (ops @ [x]) w = exec x (run ops w)"
  by (simp add: run_def)

lemma run_Nil: "run [] w = w"
  by (simp add: run_def)

lemma registered_Nil: "\<not> registered [] w file"
  by (simp add: registered_def)

lemma registered_snoc:
  "registered (ops @ [x]) w file \<longleftrightarrow>
     (\<exists>e c. x = Start e file c \<and> fst (StartLogging e file c (run ops w)) = None)
     \<or> (registered ops w file \<and> x \<noteq> Stop file)"
  (is "?L \<longleftrightarrow> ?A \<or> ?B")
proof
  assume ?L
  then obtain i e c where i: "i < length (ops @ [x])" "(ops @ [x]) ! i = Start e file c"
      "fst (StartLogging e file c (run (take i (ops @ [x])) w)) = None"
      "\<forall>j. i < j \<and> j < length (ops @ [x]) \<longrightarrow> (ops @ [x]) ! j \<noteq> Stop file"
    unfolding registered_def by blast
  show "?A \<or> ?B"
  proof (cases "i = length ops")
    case True
    with i show ?thesis by simp
  next
    case False
    with i(1) have lt: "i < length ops" by simp
    have "x \<noteq> Stop file" using i(4)[rule_format, of "length ops"] lt by simp
    moreover have "registered ops w file"
      unfolding registered_def
    proof (intro exI conjI allI impI)
      show "i < length ops" by (rule lt)
      show "ops ! i = Start e file c" using i(2) lt by (simp add: nth_append)
      show "fst (StartLogging e file c (run (take i ops) w)) = None" using i(3) lt by simp
      fix j assume "i < j \<and> j < length ops"
      then show "ops ! j \<noteq> Stop file" using i(4)[rule_format, of j] by (simp add: nth_append)
    qed
    ultimately show ?thesis by blast
  qed
next
  assume "?A \<or> ?B"
  then show ?L
  proof
    assume ?A
    then obtain e c where "x = Start e file c" "fst (StartLogging e file c (run ops w)) = None" by blast
    then show ?L unfolding registered_def
      by (intro exI[of _ "length ops"] exI[of _ e] exI[of _ c]) auto
  next
    assume b: ?B
    then obtain i e c where i: "i < length ops" "ops ! i = Start e file c"
      "fst (StartLogging e file c (run (take i ops) w)) = None"
      "\<forall>j. i < j \<and> j < length ops \<longrightarrow> ops ! j \<noteq> Stop file"
      unfolding registered_def by blast
    show ?L unfolding registered_def
    proof (intro exI[of _ i] exI[of _ e] exI[of _ c] conjI allI impI)
      show "i < length (ops @ [x])" using i(1) by simp
      show "(ops @ [x]) ! i = Start e file c" using i by (simp add: nth_append)
      show "fst (StartLogging e file c (run (take i (ops @ [x])) w)) = None" using i by simp
      fix j assume j: "i < j \<and> j < length (ops @ [x])"
      show "(ops @ [x]) ! j \<noteq> Stop file"
      proof (cases "j < length ops")
        case True then show ?thesis using i(4) j by (simp add: nth_append)
      next
        case False then have "j = length ops" using j by simp
        then show ?thesis using b by simp
      qed
    qed
  qed
qed

lemma logs_registered:
  "logs (drv w) = Map.empty \<Longrightarrow> file \<in> dom (logs (drv (run ops w))) \<longleftrightarrow> registered ops w file"
proof (induction ops rule: rev_induct)
  case Nil
  then show ?case by (simp add: run_Nil registered_Nil)
next
  case (snoc x ops)
  then have IH: "file \<in> dom (logs (drv (run ops w))) \<longleftrightarrow> registered ops w file" by simp
  show ?case
  proof (cases x)
    case (Start e f c)
    show ?thesis
    proof (cases "f = file")
      case False
      then show ?thesis using Start IH
        by (simp add: run_snoc registered_snoc StartLogging_logs_other dom_def)
    next
      case True
      show ?thesis
      proof (cases "fst (StartLogging e file c (run ops w))")
        case None
        then show ?thesis using Start True StartLogging_ok_logs[OF None]
          by (auto simp: run_snoc registered_snoc)
      next
        case (Some er)
        then show ?thesis using Start True IH StartLogging_fail_drv[OF Some]
          by (auto simp: run_snoc registered_snoc)
      qed
    qed
  next
    case (Stop f)
    then show ?thesis using IH
      by (auto simp: run_snoc registered_snoc StopLogging_logs dom_def split: if_splits)
  next
    case (Read ic cfg)
    then show ?thesis using IH
      by (simp add: run_snoc registered_snoc ReadLogs_drv)
  qed
qed


lemma StartLogging_addrs_below:
  "addrs_below w \<Longrightarrow> addrs_below (snd (StartLogging e file c w))"
  unfolding addrs_below_def
  by (auto simp: StartLogging_def Let_def less_Suc_eq split: option.splits sum.splits if_splits)

lemma StopLogging_addrs_below:
  "addrs_below w \<Longrightarrow> addrs_below (snd (StopLogging file w))"
  unfolding addrs_below_def
  by (auto simp: StopLogging_def split: option.splits if_splits)

lemma ReadLogs_addrs_below:
  "addrs_below w \<Longrightarrow> addrs_below (snd (ReadLogs ic config w))"
  unfolding addrs_below_def
  by (auto simp: ReadLogs_def Let_def split: option.splits if_splits)

lemma exec_addrs_below: "addrs_below w \<Longrightarrow> addrs_below (exec x w)"
  by (cases x) (simp_all add: StartLogging_addrs_below StopLogging_addrs_below ReadLogs_addrs_below)

lemma run_addrs_below: "addrs_below w \<Longrightarrow> addrs_below (run ops w)"
  by (induction ops rule: rev_induct) (simp_all add: run_Nil run_snoc exec_addrs_below)

lemma init_addrs_below: "addrs_below init_world"
  by (simp add: addrs_below_def init_world_def newDriver_def)

lemma ContainerID_default_LogPath [simp]:
  "ContainerID (default_LogPath e c) = ContainerID c"
  by (simp add: default_LogPath_def)

lemma StartLogging_ok_cases:
  assumes "StartLogging e file c w = (None, w')"
  shows "\<exists>lf. addr lf = next_addr w
           \<and> logs (drv w') = (logs (drv w))(file \<mapsto> lf)
           \<and> idx (drv w') = (idx (drv w))(ContainerID c \<mapsto> lf)"
proof -
  from assms obtain jl sl f where
    "w' = w\<lparr>loggers_open := insert sl (insert jl (loggers_open w)),
             streams_open := insert f (streams_open w),
             next_addr := Suc (next_addr w),
             drv := (drv w)\<lparr>logs := (logs (drv w))(file \<mapsto>
                       \<lparr>addr = next_addr w, jsonl = jl, splunkl = sl, stream = f,
                          info = default_LogPath e c\<rparr>),
                     idx := (idx (drv w))(ContainerID c \<mapsto>
                       \<lparr>addr = next_addr w, jsonl = jl, splunkl = sl, stream = f,
                          info = default_LogPath e c\<rparr>)\<rparr>,
             tasks := tasks w @ [Process \<lparr>addr = next_addr w, jsonl = jl, splunkl = sl,
                        stream = f, info = default_LogPath e c\<rparr>]\<rparr>"
    by (auto simp: StartLogging_def Let_def split: option.splits sum.splits if_splits)
  then show ?thesis
    by (intro exI[of _ "\<lparr>addr = next_addr w, jsonl = jl, splunkl = sl, stream = f,
                          info = default_LogPath e c\<rparr>"]) simp
qed

subsection \<open>Facts about the read-back goroutine\<close>

lemma buf_assign:
  "b\<lparr>Line := l, Partial := q, TimeNano := t, Source := s\<rparr>
     = \<lparr>Source = s, TimeNano = t, Line = l, Partial = q\<rparr>"
  by (cases b) simp

text \<open>The equation of the loop for an entry, with the write spelled out.\<close>

lemma bridge_loop_RecvMsg:
  "bridge_loop (RecvMsg msg # evs) buf p =
     (if pipe_done (takeOffered p)
      then (Returned, closeWrite (Some (writeCloseError (takeOffered p))) (takeOffered p))
      else if rwait (takeOffered p)
      then bridge_loop evs LogEntry_zero
             ((takeOffered p)\<lparr>written := written (takeOffered p) @ [frame_of msg],
                rwait := False\<rparr>)
      else bridge_loop evs (frame_of msg) ((takeOffered p)\<lparr>offered := Some (frame_of msg)\<rparr>))"
  by (simp add: WriteMsg_def buf_assign Let_def Reset_def)

lemmas bridge_loop_eqs = bridge_loop.simps(1-4) bridge_loop_RecvMsg bridge_loop.simps(6)

lemma bridge_loop_buf: "bridge_loop evs b p = bridge_loop evs b' p"
proof (induction evs arbitrary: b b' p)
  case Nil
  show ?case by simp
next
  case (Cons ev evs)
  show ?case
  proof (cases ev)
    case ReaderRead
    then show ?thesis
      using Cons.IH[of b "readerWait p" b'] by (simp add: Reset_def)
  next
    case (ReaderClose e)
    then show ?thesis
      using Cons.IH[of b "closeRead e p" b'] by simp
  qed (simp_all only: bridge_loop_eqs)
qed

lemma bridge_loop_Blocked_append:
  "bridge_loop pre b p = (Blocked, p1) \<Longrightarrow> bridge_loop (pre @ rest) b p = bridge_loop rest b p1"
proof (induction pre arbitrary: b p)
  case Nil
  then show ?case by simp
next
  case (Cons ev pre)
  show ?case
  proof (cases ev)
    case (RecvMsg msg)
    show ?thesis
      using Cons.prems Cons.IH
      unfolding RecvMsg append_Cons bridge_loop_RecvMsg
      by (auto split: if_splits intro: bridge_loop_buf)
  next
    case MsgClosed
    then show ?thesis using Cons.prems by simp
  next
    case (RecvErr e)
    then show ?thesis using Cons.prems by simp
  next
    case ReaderRead
    then show ?thesis
      using Cons.prems Cons.IH
      by (auto split: if_splits intro: bridge_loop_buf)
  next
    case (ReaderClose e)
    then show ?thesis
      using Cons.prems Cons.IH by (auto simp: Let_def split: if_splits)
  qed
qed

lemma werr_takeOffered [simp]: "werr (takeOffered p) = werr p"
  by (simp add: takeOffered_def split: option.splits)

lemma rerr_takeOffered [simp]: "rerr (takeOffered p) = rerr p"
  by (simp add: takeOffered_def split: option.splits)

lemma offered_takeOffered [simp]: "offered (takeOffered p) = None"
  by (simp add: takeOffered_def split: option.splits)

lemma written_takeOffered [simp]: "written (takeOffered p) = written p @ in_flight p"
  by (simp add: takeOffered_def in_flight_def split: option.splits)

lemma takeOffered_None [simp]: "offered p = None \<Longrightarrow> takeOffered p = p"
  by (simp add: takeOffered_def)

lemma written_closeWrite [simp]: "written (closeWrite e p) = written p"
  by (simp add: closeWrite_def)

lemma written_closeRead [simp]: "written (closeRead e p) = written p"
  by (simp add: closeRead_def)

lemma offered_closeWrite [simp]: "offered (closeWrite e p) = offered p"
  by (simp add: closeWrite_def)

lemma offered_closeRead [simp]: "offered (closeRead e p) = offered p"
  by (simp add: closeRead_def)

lemma werr_closeRead [simp]: "werr (closeRead e p) = werr p"
  by (simp add: closeRead_def)

lemma written_readerWait [simp]: "written (readerWait p) = written p"
  by (simp add: readerWait_def)

lemma offered_readerWait [simp]: "offered (readerWait p) = offered p"
  by (simp add: readerWait_def)

lemma werr_readerWait [simp]: "werr (readerWait p) = werr p"
  by (simp add: readerWait_def)

lemma rerr_readerWait [simp]: "rerr (readerWait p) = rerr p"
  by (simp add: readerWait_def)

lemma in_flight_None [simp]: "offered p = None \<Longrightarrow> in_flight p = []"
  by (simp add: in_flight_def)

lemma in_flight_Some [simp]: "offered p = Some m \<Longrightarrow> in_flight p = [m]"
  by (simp add: in_flight_def)

lemma in_flight_closeWrite [simp]: "in_flight (closeWrite e p) = in_flight p"
  by (simp add: in_flight_def)

text \<open>While the goroutine is in its loop, the write side of the pipe stays as it was.\<close>

lemma bridge_loop_Blocked_werr:
  "bridge_loop pre b p = (Blocked, p1) \<Longrightarrow> werr p1 = werr p"
proof (induction pre arbitrary: b p)
  case Nil
  then show ?case by simp
next
  case (Cons ev pre)
  show ?case
  proof (cases ev)
    case (RecvMsg msg)
    show ?thesis
      using Cons.prems Cons.IH
      unfolding RecvMsg bridge_loop_RecvMsg
      by (fastforce split: if_splits)
  next
    case MsgClosed
    then show ?thesis using Cons.prems by simp
  next
    case (RecvErr e)
    then show ?thesis using Cons.prems by simp
  next
    case ReaderRead
    then show ?thesis
      using Cons.prems Cons.IH by (fastforce split: if_splits)
  next
    case (ReaderClose e)
    then show ?thesis
      using Cons.prems Cons.IH by (fastforce simp: Let_def split: if_splits)
  qed
qed

text \<open>A write blocks only on a pipe whose read side is open.\<close>

lemma bridge_loop_Blocked_offered:
  "bridge_loop pre b p = (Blocked, p1) \<Longrightarrow> offered p \<noteq> None \<longrightarrow> rerr p = None \<Longrightarrow>
   offered p1 \<noteq> None \<longrightarrow> rerr p1 = None"
proof (induction pre arbitrary: b p)
  case Nil
  then show ?case by simp
next
  case (Cons ev pre)
  show ?case
  proof (cases ev)
    case (RecvMsg msg)
    show ?thesis
    proof (cases "pipe_done (takeOffered p)")
      case True
      then show ?thesis using Cons.prems(1) unfolding RecvMsg bridge_loop_RecvMsg by simp
    next
      case False
      then have r: "rerr p = None" by (simp add: pipe_done_def)
      show ?thesis
      proof (cases "rwait (takeOffered p)")
        case True
        with False Cons.prems(1) have
          "bridge_loop pre LogEntry_zero
             ((takeOffered p)\<lparr>written := written (takeOffered p) @ [frame_of msg],
                rwait := False\<rparr>) = (Blocked, p1)"
          unfolding RecvMsg bridge_loop_RecvMsg by simp
        from Cons.IH[OF this] show ?thesis by simp
      next
        case nw: False
        with False Cons.prems(1) have
          "bridge_loop pre (frame_of msg) ((takeOffered p)\<lparr>offered := Some (frame_of msg)\<rparr>)
             = (Blocked, p1)"
          unfolding RecvMsg bridge_loop_RecvMsg by simp
        from Cons.IH[OF this] r show ?thesis by simp
      qed
    qed
  next
    case MsgClosed
    then show ?thesis using Cons.prems by simp
  next
    case (RecvErr e)
    then show ?thesis using Cons.prems by simp
  next
    case ReaderRead
    show ?thesis
    proof (cases "offered p")
      case None
      with Cons.prems(1) have "bridge_loop pre b (readerWait p) = (Blocked, p1)"
        unfolding ReaderRead by simp
      from Cons.IH[OF this] None show ?thesis by simp
    next
      case (Some m)
      with Cons.prems(1) have "bridge_loop pre (Reset b) (takeOffered p) = (Blocked, p1)"
        unfolding ReaderRead by simp
      from Cons.IH[OF this] show ?thesis by simp
    qed
  next
    case (ReaderClose e)
    show ?thesis
    proof (cases "offered p")
      case None
      with Cons.prems(1) have "bridge_loop pre b (closeRead e p) = (Blocked, p1)"
        unfolding ReaderClose by simp
      from Cons.IH[OF this] None show ?thesis by simp
    next
      case (Some m)
      with Cons.prems(1) show ?thesis unfolding ReaderClose by (simp add: Let_def)
    qed
  qed
qed

text \<open>Frames reach the reader in the order of the entries, each at most once.\<close>

lemma bridge_loop_prefix:
  "prefix (written (snd (bridge_loop evs b p)))
     (written p @ in_flight p @ map frame_of (received evs))"
proof (induction evs arbitrary: b p)
  case Nil
  show ?case by simp
next
  case (Cons ev evs)
  show ?case
  proof (cases ev)
    case (RecvMsg msg)
    show ?thesis
    proof (cases "pipe_done (takeOffered p)")
      case True
      then show ?thesis unfolding RecvMsg bridge_loop_RecvMsg by simp
    next
      case False
      show ?thesis
      proof (cases "rwait (takeOffered p)")
        case True
        from Cons.IH[of LogEntry_zero
            "(takeOffered p)\<lparr>written := written (takeOffered p) @ [frame_of msg],
               rwait := False\<rparr>"] False True
        show ?thesis unfolding RecvMsg bridge_loop_RecvMsg by (simp add: in_flight_def)
      next
        case nw: False
        from Cons.IH[of "frame_of msg" "(takeOffered p)\<lparr>offered := Some (frame_of msg)\<rparr>"]
          False nw
        show ?thesis unfolding RecvMsg bridge_loop_RecvMsg by (simp add: in_flight_def)
      qed
    qed
  next
    case MsgClosed
    then show ?thesis by simp
  next
    case (RecvErr e)
    then show ?thesis by simp
  next
    case ReaderRead
    show ?thesis
    proof (cases "offered p")
      case None
      with Cons.IH[of b "readerWait p"] show ?thesis unfolding ReaderRead by simp
    next
      case (Some m)
      with Cons.IH[of "Reset b" "takeOffered p"] show ?thesis unfolding ReaderRead by simp
    qed
  next
    case (ReaderClose e)
    show ?thesis
    proof (cases "offered p")
      case None
      with Cons.IH[of b "closeRead e p"] show ?thesis unfolding ReaderClose by simp
    next
      case (Some m)
      then show ?thesis unfolding ReaderClose by (simp add: Let_def)
    qed
  qed
qed

text \<open>While the reader keeps its side open, no entry is lost.\<close>

lemma bridge_loop_no_drop:
  "\<forall>e. ReaderClose e \<notin> set evs \<Longrightarrow> werr p = None \<Longrightarrow> rerr p = None \<Longrightarrow>
   written (snd (bridge_loop evs b p)) @ in_flight (snd (bridge_loop evs b p))
     = written p @ in_flight p @ map frame_of (received evs)"
proof (induction evs arbitrary: b p)
  case Nil
  show ?case by simp
next
  case (Cons ev evs)
  have nc: "\<forall>e. ReaderClose e \<notin> set evs" using Cons.prems(1) by simp
  have nd: "\<not> pipe_done (takeOffered p)" using Cons.prems by (simp add: pipe_done_def)
  show ?case
  proof (cases ev)
    case (RecvMsg msg)
    show ?thesis
    proof (cases "rwait (takeOffered p)")
      case True
      from Cons.IH[OF nc, of
            "(takeOffered p)\<lparr>written := written (takeOffered p) @ [frame_of msg],
               rwait := False\<rparr>" LogEntry_zero] nd True Cons.prems
      show ?thesis unfolding RecvMsg bridge_loop_RecvMsg by (simp add: in_flight_def)
    next
      case nw: False
      from Cons.IH[OF nc, of "(takeOffered p)\<lparr>offered := Some (frame_of msg)\<rparr>" "frame_of msg"]
        nd nw Cons.prems
      show ?thesis unfolding RecvMsg bridge_loop_RecvMsg by (simp add: in_flight_def)
    qed
  next
    case MsgClosed
    then show ?thesis by simp
  next
    case (RecvErr e)
    then show ?thesis by simp
  next
    case ReaderRead
    show ?thesis
    proof (cases "offered p")
      case None
      with Cons.IH[OF nc, of "readerWait p" b] Cons.prems show ?thesis
        unfolding ReaderRead by simp
    next
      case (Some m)
      with Cons.IH[OF nc, of "takeOffered p" "Reset b"] Cons.prems show ?thesis
        unfolding ReaderRead by simp
    qed
  next
    case (ReaderClose e)
    then have "ReaderClose e \<in> set (ev # evs)" by simp
    with Cons.prems(1) show ?thesis by blast
  qed
qed

lemma written_bridge:
  "written (out (bridge evs p)) = written (snd (bridge_loop evs LogEntry_zero p))"
  by (simp add: bridge_def split: prod.splits status.splits)

lemma in_flight_bridge:
  "in_flight (out (bridge evs p)) = in_flight (snd (bridge_loop evs LogEntry_zero p))"
  by (simp add: bridge_def split: prod.splits status.splits)

subsection \<open>Evaluation at the example values\<close>

lemmas bridge_simps = bridge_def WriteMsg_def takeOffered_def readerWait_def closeWrite_def
  closeRead_def pipe_done_def writeCloseError_def readCloseError_def new_pipe_def
  LogEntry_zero_def Reset_def UnixNano_def in_flight_def Let_def

lemmas ex_simps = run_def StartLogging_def StopLogging_def ReadLogs_def default_LogPath_def
  ex_env_def ex_info_def init_world_def newDriver_def Let_def new_pipe_def

subsection \<open>Claims\<close>

text \<open>
  Claim C1. A call of \<open>StartLogging\<close> with a file that is already a key of \<open>logs\<close>
  fails with the already-exists error, and leaves \<open>logs\<close> and \<open>idx\<close> as they were.
\<close>

theorem StartLogging_duplicate:
  assumes "file \<in> dom (logs (drv w))"
  shows "fst (StartLogging e file logCtx w) = Some (AlreadyExists file)
       \<and> logs (drv (snd (StartLogging e file logCtx w))) = logs (drv w)
       \<and> idx (drv (snd (StartLogging e file logCtx w))) = idx (drv w)"
  using assms by (auto simp: StartLogging_exists)

text \<open>
  The theorem of C1 at a concrete state: \<open>a\<close> has been started, and is started again.
\<close>

theorem StartLogging_duplicate_witness:
  "''a'' \<in> dom (logs (drv (run [Start (ex_env 0) ''a'' ex_info] init_world)))
   \<and> fst (StartLogging (ex_env 1) ''a'' ex_info (run [Start (ex_env 0) ''a'' ex_info] init_world))
       = Some (AlreadyExists ''a'')
   \<and> logs (drv (snd (StartLogging (ex_env 1) ''a'' ex_info
         (run [Start (ex_env 0) ''a'' ex_info] init_world))))
       = logs (drv (run [Start (ex_env 0) ''a'' ex_info] init_world))
   \<and> idx (drv (snd (StartLogging (ex_env 1) ''a'' ex_info
         (run [Start (ex_env 0) ''a'' ex_info] init_world))))
       = idx (drv (run [Start (ex_env 0) ''a'' ex_info] init_world))"
proof -
  have h: "''a'' \<in> dom (logs (drv (run [Start (ex_env 0) ''a'' ex_info] init_world)))"
    by (simp add: ex_simps)
  show ?thesis
    using h StartLogging_duplicate [OF h, of "ex_env 1" ex_info] by simp
qed

text \<open>
  Claim C2, as amended. The frames the reader has got from the goroutine are at every
  moment the entries received on \<open>watcher.Msg\<close>, one frame per entry, in the order
  received and up to some entry, and the fields of each frame are the source, the
  timestamp in nanoseconds, the line and the partial flag of its entry. While the
  reader has not closed its side no entry is lost: every entry received has reached
  the reader, except that the latest may still wait in \<open>WriteMsg\<close> for the reader to take
  it. When the reader closes its side, the entry that waits in \<open>WriteMsg\<close>, and likewise
  an entry received after the close, gets no frame: \<open>WriteMsg\<close> fails and the goroutine
  closes the pipe with the error of the write and returns.
\<close>

theorem bridge_fifo:
  "prefix (written (out (bridge evs new_pipe))) (map frame_of (received evs))
   \<and> ((\<forall>e. ReaderClose e \<notin> set evs) \<longrightarrow>
        written (out (bridge evs new_pipe)) @ in_flight (out (bridge evs new_pipe))
          = map frame_of (received evs))
   \<and> (\<not> exited (bridge evs new_pipe) \<and> offered (out (bridge evs new_pipe)) \<noteq> None \<longrightarrow>
        exited (bridge (evs @ ReaderClose e # rest) new_pipe)
        \<and> written (out (bridge (evs @ ReaderClose e # rest) new_pipe))
            = written (out (bridge evs new_pipe))
        \<and> werr (out (bridge (evs @ ReaderClose e # rest) new_pipe))
            = Some (case e of None \<Rightarrow> ErrClosedPipe | Some x \<Rightarrow> x))
   \<and> (\<not> exited (bridge evs new_pipe) \<and> rerr (out (bridge evs new_pipe)) = Some x \<longrightarrow>
        exited (bridge (evs @ RecvMsg m # rest) new_pipe)
        \<and> written (out (bridge (evs @ RecvMsg m # rest) new_pipe))
            = written (out (bridge evs new_pipe))
        \<and> werr (out (bridge (evs @ RecvMsg m # rest) new_pipe)) = Some x)"
proof (intro conjI impI)
  show "prefix (written (out (bridge evs new_pipe))) (map frame_of (received evs))"
    using bridge_loop_prefix[of evs LogEntry_zero new_pipe]
    by (simp add: written_bridge) (simp add: new_pipe_def in_flight_def)
next
  assume "\<forall>e. ReaderClose e \<notin> set evs"
  from bridge_loop_no_drop[OF this, of new_pipe LogEntry_zero]
  show "written (out (bridge evs new_pipe)) @ in_flight (out (bridge evs new_pipe))
          = map frame_of (received evs)"
    by (simp add: written_bridge in_flight_bridge) (simp add: new_pipe_def in_flight_def)
next
  assume a: "\<not> exited (bridge evs new_pipe) \<and> offered (out (bridge evs new_pipe)) \<noteq> None"
  then obtain p1 where b: "bridge_loop evs LogEntry_zero new_pipe = (Blocked, p1)"
    by (auto simp: bridge_def split: prod.splits status.splits)
  with a have o: "offered p1 \<noteq> None" and u: "out (bridge evs new_pipe) = p1"
    by (simp_all add: bridge_def)
  have w: "werr p1 = None"
    using bridge_loop_Blocked_werr[OF b] by (simp add: new_pipe_def)
  have r: "rerr p1 = None"
    using bridge_loop_Blocked_offered[OF b] o by (simp add: new_pipe_def)
  have l: "bridge_loop (evs @ ReaderClose e # rest) LogEntry_zero new_pipe
      = (Returned, closeWrite (Some (writeCloseError (closeRead e (p1\<lparr>offered := None\<rparr>))))
           (closeRead e (p1\<lparr>offered := None\<rparr>)))"
    using o by (auto simp: bridge_loop_Blocked_append[OF b] Let_def)
  show "exited (bridge (evs @ ReaderClose e # rest) new_pipe)"
    by (simp add: bridge_def l)
  show "written (out (bridge (evs @ ReaderClose e # rest) new_pipe))
      = written (out (bridge evs new_pipe))"
    by (simp only: u) (simp add: bridge_def l)
  show "werr (out (bridge (evs @ ReaderClose e # rest) new_pipe))
      = Some (case e of None \<Rightarrow> ErrClosedPipe | Some x \<Rightarrow> x)"
    using w r by (simp add: bridge_def l closeWrite_def closeRead_def writeCloseError_def)
next
  assume a: "\<not> exited (bridge evs new_pipe) \<and> rerr (out (bridge evs new_pipe)) = Some x"
  then obtain p1 where b: "bridge_loop evs LogEntry_zero new_pipe = (Blocked, p1)"
    by (auto simp: bridge_def split: prod.splits status.splits)
  with a have r: "rerr p1 = Some x" and u: "out (bridge evs new_pipe) = p1"
    by (simp_all add: bridge_def)
  have w: "werr p1 = None"
    using bridge_loop_Blocked_werr[OF b] by (simp add: new_pipe_def)
  have o: "offered p1 = None"
    using bridge_loop_Blocked_offered[OF b] r by (auto simp: new_pipe_def)
  have l: "bridge_loop (evs @ RecvMsg m # rest) LogEntry_zero new_pipe
      = (Returned, closeWrite (Some (writeCloseError p1)) p1)"
    using o r by (simp add: bridge_loop_Blocked_append[OF b] bridge_loop_RecvMsg pipe_done_def
        del: bridge_loop.simps)
  show "exited (bridge (evs @ RecvMsg m # rest) new_pipe)"
    by (simp add: bridge_def l)
  show "written (out (bridge (evs @ RecvMsg m # rest) new_pipe))
      = written (out (bridge evs new_pipe))"
    by (simp only: u) (simp add: bridge_def l)
  show "werr (out (bridge (evs @ RecvMsg m # rest) new_pipe)) = Some x"
    using w r by (simp add: bridge_def l closeWrite_def writeCloseError_def)
qed

text \<open>
  The theorem of C2 at three sequences of events: two entries, each read by the reader,
  and the close of \<open>watcher.Msg\<close>; an entry that waits in \<open>WriteMsg\<close> when the reader closes
  its side; and an entry that arrives after the reader has closed its side.
\<close>

theorem bridge_fifo_witness:
  "(\<forall>e. ReaderClose e \<notin> set [RecvMsg ex_msg, ReaderRead,
       RecvMsg (ex_msg\<lparr>msg_Partial := True\<rparr>), ReaderRead, MsgClosed])
   \<and> written (out (bridge [RecvMsg ex_msg, ReaderRead,
       RecvMsg (ex_msg\<lparr>msg_Partial := True\<rparr>), ReaderRead, MsgClosed] new_pipe))
     = [\<lparr>Source = ''stdout'', TimeNano = 1500000000000000007, Line = [104, 105], Partial = False\<rparr>,
        \<lparr>Source = ''stdout'', TimeNano = 1500000000000000007, Line = [104, 105], Partial = True\<rparr>]
   \<and> \<not> exited (bridge [RecvMsg ex_msg] new_pipe)
   \<and> offered (out (bridge [RecvMsg ex_msg] new_pipe)) \<noteq> None
   \<and> exited (bridge ([RecvMsg ex_msg] @ ReaderClose None # []) new_pipe)
   \<and> written (out (bridge ([RecvMsg ex_msg] @ ReaderClose None # []) new_pipe)) = []
   \<and> werr (out (bridge ([RecvMsg ex_msg] @ ReaderClose None # []) new_pipe)) = Some ErrClosedPipe
   \<and> \<not> exited (bridge [ReaderClose (Some (External ''gone''))] new_pipe)
   \<and> rerr (out (bridge [ReaderClose (Some (External ''gone''))] new_pipe))
       = Some (External ''gone'')
   \<and> exited (bridge ([ReaderClose (Some (External ''gone''))] @ RecvMsg ex_msg # []) new_pipe)
   \<and> written (out (bridge ([ReaderClose (Some (External ''gone''))] @ RecvMsg ex_msg # [])
       new_pipe)) = []
   \<and> werr (out (bridge ([ReaderClose (Some (External ''gone''))] @ RecvMsg ex_msg # [])
       new_pipe)) = Some (External ''gone'')"
proof -
  let ?a = "[RecvMsg ex_msg, ReaderRead, RecvMsg (ex_msg\<lparr>msg_Partial := True\<rparr>), ReaderRead,
    MsgClosed]"
  let ?b = "[RecvMsg ex_msg]"
  let ?c = "[ReaderClose (Some (External ''gone''))]"
  have a1: "\<forall>e. ReaderClose e \<notin> set ?a" by simp
  have a2: "in_flight (out (bridge ?a new_pipe)) = []"
    by (simp add: bridge_simps)
  have a3: "map frame_of (received ?a)
      = [\<lparr>Source = ''stdout'', TimeNano = 1500000000000000007, Line = [104, 105], Partial = False\<rparr>,
         \<lparr>Source = ''stdout'', TimeNano = 1500000000000000007, Line = [104, 105], Partial = True\<rparr>]"
    by (simp add: ex_msg_def UnixNano_def)
  have b1: "\<not> exited (bridge ?b new_pipe)" "offered (out (bridge ?b new_pipe)) \<noteq> None"
    "written (out (bridge ?b new_pipe)) = []"
    by (simp_all add: bridge_simps)
  have c1: "\<not> exited (bridge ?c new_pipe)"
    "rerr (out (bridge ?c new_pipe)) = Some (External ''gone'')"
    "written (out (bridge ?c new_pipe)) = []"
    by (simp_all add: bridge_simps)
  from bridge_fifo [where evs = ?a]
       bridge_fifo [where evs = ?b and e = None and rest = "[]"]
       bridge_fifo [where evs = ?c and x = "External ''gone''" and m = ex_msg and rest = "[]"]
       a1 a2 a3 b1 c1
  show ?thesis by simp
qed

text \<open>
  Claim C2 as stated fails: the reader closes its side, then an entry arrives on
  \<open>watcher.Msg\<close>. The goroutine receives the entry, \<open>WriteMsg\<close> fails, and the goroutine
  closes the pipe with the write error and returns: no frame for the entry.
\<close>

theorem bridge_fifo_counterexample:
  "written (out (bridge [ReaderClose None, RecvMsg ex_msg, MsgClosed] new_pipe)) = []
   \<and> exited (bridge [ReaderClose None, RecvMsg ex_msg, MsgClosed] new_pipe)
   \<and> werr (out (bridge [ReaderClose None, RecvMsg ex_msg, MsgClosed] new_pipe)) = Some ErrClosedPipe"
  by (simp add: bridge_simps)

text \<open>
  Claim C3. After any sequence of operations run from the empty driver, \<open>file\<close> is a
  key of \<open>logs\<close> exactly when a start for it succeeded and no stop for it ran
  afterwards. \<open>StopLogging\<close> of a registered file returns nil, closes the stream of its
  pair and deletes the key; \<open>StopLogging\<close> of an absent file returns nil and changes
  nothing.
\<close>

theorem registry_invariant:
  "(file \<in> dom (logs (drv (run ops init_world))) \<longleftrightarrow> registered ops init_world file)
   \<and> (\<forall>lf. logs (drv w) file = Some lf \<longrightarrow>
         fst (StopLogging file w) = None
         \<and> stream lf \<notin> streams_open (snd (StopLogging file w))
         \<and> logs (drv (snd (StopLogging file w))) = (logs (drv w))(file := None))
   \<and> (logs (drv w) file = None \<longrightarrow> StopLogging file w = (None, w))"
proof (intro conjI allI impI)
  show "file \<in> dom (logs (drv (run ops init_world))) \<longleftrightarrow> registered ops init_world file"
    by (rule logs_registered) (simp add: init_world_def newDriver_def)
qed (simp_all add: StopLogging_def)

text \<open>
  The theorem of C3 after \<open>a\<close> and \<open>b\<close> are started and \<open>a\<close> is stopped, at the stop of
  \<open>a\<close>, and at a stop on the empty driver.
\<close>

theorem registry_invariant_witness:
  "''b'' \<in> dom (logs (drv (run [Start (ex_env 0) ''a'' ex_info, Start (ex_env 1) ''b'' ex_info,
       Stop ''a''] init_world)))
   \<and> registered [Start (ex_env 0) ''a'' ex_info, Start (ex_env 1) ''b'' ex_info, Stop ''a'']
       init_world ''b''
   \<and> \<not> registered [Start (ex_env 0) ''a'' ex_info, Start (ex_env 1) ''b'' ex_info, Stop ''a'']
       init_world ''a''
   \<and> logs (drv (run [Start (ex_env 0) ''a'' ex_info] init_world)) ''a''
       = Some \<lparr>addr = 0, jsonl = \<lparr>logger_id = 0, is_LogReader = True\<rparr>,
           splunkl = \<lparr>logger_id = 1, is_LogReader = False\<rparr>, stream = 0,
           info = \<lparr>ContainerID = ''c1'', LogPath = ''/var/log/docker/c1'', Config = []\<rparr>\<rparr>
   \<and> 0 \<in> streams_open (run [Start (ex_env 0) ''a'' ex_info] init_world)
   \<and> 0 \<notin> streams_open (snd (StopLogging ''a'' (run [Start (ex_env 0) ''a'' ex_info] init_world)))
   \<and> logs (drv (snd (StopLogging ''a'' (run [Start (ex_env 0) ''a'' ex_info] init_world)))) ''a'' = None
   \<and> logs (drv init_world) ''a'' = None
   \<and> StopLogging ''a'' init_world = (None, init_world)"
proof -
  let ?ops = "[Start (ex_env 0) ''a'' ex_info, Start (ex_env 1) ''b'' ex_info, Stop ''a'']"
  let ?w1 = "run [Start (ex_env 0) ''a'' ex_info] init_world"
  let ?lf = "\<lparr>addr = 0, jsonl = \<lparr>logger_id = 0, is_LogReader = True\<rparr>,
           splunkl = \<lparr>logger_id = 1, is_LogReader = False\<rparr>, stream = 0,
           info = \<lparr>ContainerID = ''c1'', LogPath = ''/var/log/docker/c1'', Config = []\<rparr>\<rparr>"
  have b: "''b'' \<in> dom (logs (drv (run ?ops init_world)))"
    by (simp add: ex_simps)
  have a: "''a'' \<notin> dom (logs (drv (run ?ops init_world)))"
    by (simp add: ex_simps)
  have l: "logs (drv ?w1) ''a'' = Some ?lf"
    by (simp add: ex_simps)
  have o: "0 \<in> streams_open ?w1"
    by (simp add: ex_simps)
  have n: "logs (drv init_world) ''a'' = None"
    by (simp add: init_world_def newDriver_def)
  from b a l o n
    registry_invariant [of "''b''" ?ops init_world]
    registry_invariant [of "''a''" ?ops ?w1]
    registry_invariant [of "''a''" "[]" init_world]
  show ?thesis
    by simp
qed

text \<open>
  Claim C4, as amended. \<open>StopLogging\<close> never changes \<open>idx\<close>: the entry of a source is left
  in place by every stop, whether the stopped pair is the one indexed or has been
  superseded.
\<close>

theorem StopLogging_keeps_idx: "idx (drv (snd (StopLogging file w))) = idx (drv w)"
  by (simp add: StopLogging_def split: option.splits)

text \<open>
  Claim C4 as stated fails: \<open>a\<close> is started for the container \<open>c1\<close>, its pair is the one
  \<open>idx\<close> holds for \<open>c1\<close>, and after \<open>StopLogging\<close> of \<open>a\<close> the entry for \<open>c1\<close> is still
  there.
\<close>

theorem StopLogging_keeps_idx_counterexample:
  "logs (drv (snd (StartLogging (ex_env 0) ''a'' ex_info init_world))) ''a''
     = idx (drv (snd (StartLogging (ex_env 0) ''a'' ex_info init_world))) ''c1''
   \<and> idx (drv (snd (StartLogging (ex_env 0) ''a'' ex_info init_world))) ''c1'' \<noteq> None
   \<and> idx (drv (snd (StopLogging ''a'' (snd (StartLogging (ex_env 0) ''a'' ex_info init_world))))) ''c1''
       \<noteq> None"
  by (simp add: ex_simps)

text \<open>
  Claim C5, as amended. When \<open>StartLogging\<close> fails after the duplicate check, the driver
  (both maps) is unchanged, no pair is allocated and no goroutine is launched. No stream
  has been opened (opening it is the last step that can fail). \<open>StartLogging\<close> closes
  nothing: each logger constructed before the failing step is still open on return.
\<close>

theorem StartLogging_failure:
  assumes "logs (drv w) file = None"
    and "StartLogging e file logCtx w = (Some er, w')"
  shows "drv w' = drv w \<and> next_addr w' = next_addr w \<and> tasks w' = tasks w
       \<and> streams_open w' = streams_open w
       \<and> loggers_open w \<subseteq> loggers_open w'
       \<and> (\<forall>jl. MkdirAll e (filepath_Dir e (LogPath (default_LogPath e logCtx))) = None
             \<and> jsonfilelog_New e (default_LogPath e logCtx) = Inr jl
            \<longrightarrow> jl \<in> loggers_open w')
       \<and> (\<forall>jl sl. MkdirAll e (filepath_Dir e (LogPath (default_LogPath e logCtx))) = None
             \<and> jsonfilelog_New e (default_LogPath e logCtx) = Inr jl
             \<and> ValidateLogOpt e (Config (default_LogPath e logCtx)) = None
             \<and> New e (default_LogPath e logCtx) = Inr sl
            \<longrightarrow> sl \<in> loggers_open w')"
  using assms
  by (auto simp: StartLogging_def Let_def split: option.splits sum.splits if_splits)

text \<open>
  The theorem of C5 where \<open>ValidateLogOpt\<close> rejects the options: the jsonfile logger,
  constructed before, stays open.
\<close>

theorem StartLogging_failure_witness:
  "logs (drv init_world) ''a'' = None
   \<and> fst (StartLogging ((ex_env 0)\<lparr>ValidateLogOpt := \<lambda>c. Some (External ''bad option'')\<rparr>)
        ''a'' ex_info init_world)
       = Some (Wrapf (External ''bad option'') ''error options logger splunk: '' ''a'')
   \<and> drv (snd (StartLogging ((ex_env 0)\<lparr>ValidateLogOpt := \<lambda>c. Some (External ''bad option'')\<rparr>)
        ''a'' ex_info init_world)) = drv init_world
   \<and> tasks (snd (StartLogging ((ex_env 0)\<lparr>ValidateLogOpt := \<lambda>c. Some (External ''bad option'')\<rparr>)
        ''a'' ex_info init_world)) = []
   \<and> streams_open (snd (StartLogging ((ex_env 0)\<lparr>ValidateLogOpt := \<lambda>c. Some (External ''bad option'')\<rparr>)
        ''a'' ex_info init_world)) = {}
   \<and> \<lparr>logger_id = 0, is_LogReader = True\<rparr>
       \<in> loggers_open (snd (StartLogging
           ((ex_env 0)\<lparr>ValidateLogOpt := \<lambda>c. Some (External ''bad option'')\<rparr>)
           ''a'' ex_info init_world))"
proof -
  let ?e = "(ex_env 0)\<lparr>ValidateLogOpt := \<lambda>c. Some (External ''bad option'')\<rparr>"
  let ?er = "Wrapf (External ''bad option'') ''error options logger splunk: '' ''a''"
  have h1: "logs (drv init_world) ''a'' = None"
    by (simp add: init_world_def newDriver_def)
  have h2: "fst (StartLogging ?e ''a'' ex_info init_world) = Some ?er"
    by (simp add: ex_simps)
  then have h3: "StartLogging ?e ''a'' ex_info init_world
       = (Some ?er, snd (StartLogging ?e ''a'' ex_info init_world))"
    by (metis prod.collapse)
  have m: "MkdirAll ?e (filepath_Dir ?e (LogPath (default_LogPath ?e ex_info))) = None"
    by (simp add: ex_env_def)
  have j: "jsonfilelog_New ?e (default_LogPath ?e ex_info)
       = Inr \<lparr>logger_id = 0, is_LogReader = True\<rparr>"
    by (simp add: ex_env_def)
  have t: "tasks init_world = []" "streams_open init_world = {}"
    by (simp_all add: init_world_def)
  from StartLogging_failure [OF h1 h3] h1 h2 m j t
  show ?thesis by simp
qed

text \<open>
  Claim C5 as stated fails: \<open>fifo.OpenFifo\<close> fails after both loggers were constructed;
  \<open>StartLogging\<close> returns the error and both loggers are still open.
\<close>

theorem StartLogging_failure_counterexample:
  "logs (drv init_world) ''a'' = None
   \<and> fst (StartLogging ((ex_env 0)\<lparr>OpenFifo := \<lambda>f. Inl (External ''no fifo'')\<rparr>) ''a'' ex_info
       init_world) = Some (Wrapf (External ''no fifo'') ''error opening logger fifo: '' ''a'')
   \<and> loggers_open init_world = {}
   \<and> loggers_open (snd (StartLogging ((ex_env 0)\<lparr>OpenFifo := \<lambda>f. Inl (External ''no fifo'')\<rparr>)
       ''a'' ex_info init_world))
     = {\<lparr>logger_id = 0, is_LogReader = True\<rparr>, \<lparr>logger_id = 1, is_LogReader = False\<rparr>}"
  by (auto simp add: ex_simps)

text \<open>
  Claim C6. \<open>StopLogging\<close> returns nil for every file and every state, registered or
  not; called a second time it returns nil again and changes nothing more.
\<close>

theorem StopLogging_total:
  "fst (StopLogging file w) = None
   \<and> fst (StopLogging file (snd (StopLogging file w))) = None
   \<and> snd (StopLogging file (snd (StopLogging file w))) = snd (StopLogging file w)"
  by (simp add: StopLogging_def split: option.splits)

text \<open>
  Claim C7. \<open>ReadLogs\<close> fails with the not-found error when \<open>idx\<close> has no entry for the
  container id, and with the unsupported-operation error when the pair's jsonfile
  logger is no \<open>LogReader\<close>. Otherwise it returns the handle of a new pipe; at that
  moment the pipe is empty and open, and the goroutine that will write to it has only
  been launched.
\<close>

theorem ReadLogs_results:
  "(idx (drv w) (ContainerID ic) = None \<longrightarrow>
       ReadLogs ic config w = (Inl (NotFound (ContainerID ic)), w))
   \<and> (\<forall>lf. idx (drv w) (ContainerID ic) = Some lf \<and> \<not> is_LogReader (jsonl lf) \<longrightarrow>
         fst (ReadLogs ic config w) = Inl UnsupportedOperation)
   \<and> (\<forall>lf. idx (drv w) (ContainerID ic) = Some lf \<and> is_LogReader (jsonl lf) \<longrightarrow>
         fst (ReadLogs ic config w) = Inr (length (pipes w))
         \<and> pipes (snd (ReadLogs ic config w)) = pipes w @ [new_pipe]
         \<and> tasks (snd (ReadLogs ic config w))
             = tasks w @ [Bridge (jsonl lf) config (length (pipes w))])"
  by (simp add: ReadLogs_def Let_def)

text \<open>
  The theorem of C7 on the empty driver, after a start whose jsonfile logger is no
  \<open>LogReader\<close>, and after a start whose jsonfile logger is one.
\<close>

theorem ReadLogs_results_witness:
  "idx (drv init_world) (ContainerID ex_info) = None
   \<and> ReadLogs ex_info \<lparr>Tail = 10, Follow = False\<rparr> init_world
       = (Inl (NotFound ''c1''), init_world)
   \<and> \<not> is_LogReader \<lparr>logger_id = 1, is_LogReader = False\<rparr>
   \<and> fst (ReadLogs ex_info \<lparr>Tail = 10, Follow = False\<rparr>
        (run [Start ((ex_env 0)\<lparr>jsonfilelog_New := New (ex_env 0)\<rparr>) ''a'' ex_info] init_world))
       = Inl UnsupportedOperation
   \<and> is_LogReader \<lparr>logger_id = 0, is_LogReader = True\<rparr>
   \<and> fst (ReadLogs ex_info \<lparr>Tail = 10, Follow = False\<rparr>
        (run [Start (ex_env 0) ''a'' ex_info] init_world)) = Inr 0
   \<and> pipes (snd (ReadLogs ex_info \<lparr>Tail = 10, Follow = False\<rparr>
        (run [Start (ex_env 0) ''a'' ex_info] init_world))) = [new_pipe]
   \<and> tasks (snd (ReadLogs ex_info \<lparr>Tail = 10, Follow = False\<rparr>
        (run [Start (ex_env 0) ''a'' ex_info] init_world)))
       = tasks (run [Start (ex_env 0) ''a'' ex_info] init_world)
         @ [Bridge \<lparr>logger_id = 0, is_LogReader = True\<rparr> \<lparr>Tail = 10, Follow = False\<rparr> 0]"
proof -
  let ?cfg = "\<lparr>Tail = 10, Follow = False\<rparr>"
  let ?wn = "run [Start ((ex_env 0)\<lparr>jsonfilelog_New := New (ex_env 0)\<rparr>) ''a'' ex_info] init_world"
  let ?wr = "run [Start (ex_env 0) ''a'' ex_info] init_world"
  let ?info = "\<lparr>ContainerID = ''c1'', LogPath = ''/var/log/docker/c1'', Config = []\<rparr>"
  have h0: "idx (drv init_world) (ContainerID ex_info) = None"
    by (simp add: init_world_def newDriver_def)
  have c: "ContainerID ex_info = ''c1''"
    by (simp add: ex_info_def)
  have hn: "idx (drv ?wn) (ContainerID ex_info)
      = Some \<lparr>addr = 0, jsonl = \<lparr>logger_id = 1, is_LogReader = False\<rparr>,
          splunkl = \<lparr>logger_id = 1, is_LogReader = False\<rparr>, stream = 0, info = ?info\<rparr>"
    by (simp add: ex_simps)
  have hr: "idx (drv ?wr) (ContainerID ex_info)
      = Some \<lparr>addr = 0, jsonl = \<lparr>logger_id = 0, is_LogReader = True\<rparr>,
          splunkl = \<lparr>logger_id = 1, is_LogReader = False\<rparr>, stream = 0, info = ?info\<rparr>"
    by (simp add: ex_simps)
  have p: "pipes ?wr = []"
    by (simp add: ex_simps)
  from ReadLogs_results [of init_world ex_info ?cfg]
       ReadLogs_results [of ?wn ex_info ?cfg]
       ReadLogs_results [of ?wr ex_info ?cfg] h0 c hn hr p
  show ?thesis by simp
qed

text \<open>
  Claim C8. While the goroutine is still in its loop: an error on \<open>watcher.Err\<close> makes it
  return with the pipe closed with that error, which is what a reader that has not
  closed its own side reads; the close of \<open>watcher.Msg\<close> makes it return with the pipe
  closed with \<open>EOF\<close>. Whenever the goroutine has returned, \<open>watcher.Close()\<close> has run.
\<close>

theorem bridge_termination:
  assumes "\<not> exited (bridge pre new_pipe)"
  shows "exited (bridge (pre @ RecvErr (Some er) # evs) new_pipe)
       \<and> werr (out (bridge (pre @ RecvErr (Some er) # evs) new_pipe)) = Some er
       \<and> (rerr (out (bridge (pre @ RecvErr (Some er) # evs) new_pipe)) = None \<longrightarrow>
            readCloseError (out (bridge (pre @ RecvErr (Some er) # evs) new_pipe)) = er)
       \<and> exited (bridge (pre @ MsgClosed # evs) new_pipe)
       \<and> werr (out (bridge (pre @ MsgClosed # evs) new_pipe)) = Some EOF
       \<and> (rerr (out (bridge (pre @ MsgClosed # evs) new_pipe)) = None \<longrightarrow>
            readCloseError (out (bridge (pre @ MsgClosed # evs) new_pipe)) = EOF)
       \<and> (\<forall>evs'. exited (bridge evs' new_pipe) \<longrightarrow> watcher_closed (bridge evs' new_pipe))"
proof -
  from assms obtain p1 where b: "bridge_loop pre LogEntry_zero new_pipe = (Blocked, p1)"
    by (auto simp: bridge_def split: prod.splits status.splits)
  have w: "werr p1 = None"
    using bridge_loop_Blocked_werr[OF b] by (simp add: new_pipe_def)
  have r: "\<And>evs'. exited (bridge evs' new_pipe) \<longrightarrow> watcher_closed (bridge evs' new_pipe)"
    by (simp add: bridge_def split: prod.splits status.splits)
  show ?thesis
    using w r
    by (simp add: bridge_def bridge_loop_Blocked_append[OF b] closeWrite_def readCloseError_def)
qed

text \<open>
  The theorem of C8 after one entry: at an error, at the close of the channel, and for
  the return after a failed write.
\<close>

theorem bridge_termination_witness:
  "\<not> exited (bridge [RecvMsg ex_msg] new_pipe)
   \<and> exited (bridge ([RecvMsg ex_msg] @ RecvErr (Some (External ''disk'')) # [RecvMsg ex_msg]) new_pipe)
   \<and> werr (out (bridge ([RecvMsg ex_msg] @ RecvErr (Some (External ''disk'')) # [RecvMsg ex_msg]) new_pipe))
       = Some (External ''disk'')
   \<and> rerr (out (bridge ([RecvMsg ex_msg] @ RecvErr (Some (External ''disk'')) # [RecvMsg ex_msg]) new_pipe)) = None
   \<and> readCloseError (out (bridge ([RecvMsg ex_msg] @ RecvErr (Some (External ''disk'')) # [RecvMsg ex_msg]) new_pipe))
       = External ''disk''
   \<and> exited (bridge ([RecvMsg ex_msg] @ MsgClosed # []) new_pipe)
   \<and> werr (out (bridge ([RecvMsg ex_msg] @ MsgClosed # []) new_pipe)) = Some EOF
   \<and> rerr (out (bridge ([RecvMsg ex_msg] @ MsgClosed # []) new_pipe)) = None
   \<and> readCloseError (out (bridge ([RecvMsg ex_msg] @ MsgClosed # []) new_pipe)) = EOF
   \<and> exited (bridge [ReaderClose None, RecvMsg ex_msg] new_pipe)
   \<and> watcher_closed (bridge [ReaderClose None, RecvMsg ex_msg] new_pipe)"
proof -
  have h: "\<not> exited (bridge [RecvMsg ex_msg] new_pipe)"
    by (simp add: bridge_simps)
  have r1: "rerr (out (bridge ([RecvMsg ex_msg] @ RecvErr (Some (External ''disk'')) # [RecvMsg ex_msg]) new_pipe)) = None"
    by (simp add: bridge_simps)
  have r2: "rerr (out (bridge ([RecvMsg ex_msg] @ MsgClosed # []) new_pipe)) = None"
    by (simp add: bridge_simps)
  have x: "exited (bridge [ReaderClose None, RecvMsg ex_msg] new_pipe)"
    by (simp add: bridge_simps)
  from bridge_termination [OF h, of "External ''disk''" "[RecvMsg ex_msg]"]
       bridge_termination [OF h, of _ "[]"] h r1 r2 x
  show ?thesis by simp
qed

text \<open>
  Claim C9. In a state reached from the empty driver where \<open>file1\<close> is registered with
  the pair \<open>lf1\<close>, a successful \<open>StartLogging\<close> of another file for the same container
  id registers a pair at a new address, makes \<open>idx\<close> hold that pair for the container
  id, and leaves \<open>lf1\<close> registered under \<open>file1\<close>.
\<close>

theorem StartLogging_supersedes:
  assumes "logs (drv (run ops init_world)) file1 = Some lf1"
    and "file2 \<noteq> file1"
    and "ContainerID logCtx = ContainerID (info lf1)"
    and "StartLogging e file2 logCtx (run ops init_world) = (None, w')"
  shows "\<exists>lf2. logs (drv w') file2 = Some lf2 \<and> addr lf2 \<noteq> addr lf1
           \<and> idx (drv w') (ContainerID (info lf1)) = Some lf2
           \<and> logs (drv w') file1 = Some lf1"
proof -
  have "addrs_below (run ops init_world)"
    by (rule run_addrs_below) (rule init_addrs_below)
  with assms(1) have lt: "addr lf1 < next_addr (run ops init_world)"
    by (auto simp: addrs_below_def)
  from StartLogging_ok_cases[OF assms(4)] obtain lf2 where
    l: "logs (drv w') = (logs (drv (run ops init_world)))(file2 \<mapsto> lf2)"
    and i: "idx (drv w') = (idx (drv (run ops init_world)))(ContainerID logCtx \<mapsto> lf2)"
    and a: "addr lf2 = next_addr (run ops init_world)"
    by fastforce
  show ?thesis
    using l i a lt assms(1,2,3) by (intro exI[of _ lf2]) simp
qed

text \<open>
  The theorem of C9 at \<open>a\<close> and \<open>b\<close>, started one after the other for the container \<open>c1\<close>.
\<close>

theorem StartLogging_supersedes_witness:
  "logs (drv (run [Start (ex_env 0) ''a'' ex_info] init_world)) ''a''
     = Some \<lparr>addr = 0, jsonl = \<lparr>logger_id = 0, is_LogReader = True\<rparr>,
         splunkl = \<lparr>logger_id = 1, is_LogReader = False\<rparr>, stream = 0,
         info = \<lparr>ContainerID = ''c1'', LogPath = ''/var/log/docker/c1'', Config = []\<rparr>\<rparr>
   \<and> ''b'' \<noteq> ''a''
   \<and> fst (StartLogging (ex_env 1) ''b'' ex_info (run [Start (ex_env 0) ''a'' ex_info] init_world)) = None
   \<and> (\<exists>lf2. logs (drv (snd (StartLogging (ex_env 1) ''b'' ex_info
                 (run [Start (ex_env 0) ''a'' ex_info] init_world)))) ''b'' = Some lf2
        \<and> addr lf2 \<noteq> 0
        \<and> idx (drv (snd (StartLogging (ex_env 1) ''b'' ex_info
                 (run [Start (ex_env 0) ''a'' ex_info] init_world)))) ''c1'' = Some lf2
        \<and> logs (drv (snd (StartLogging (ex_env 1) ''b'' ex_info
                 (run [Start (ex_env 0) ''a'' ex_info] init_world)))) ''a''
            = logs (drv (run [Start (ex_env 0) ''a'' ex_info] init_world)) ''a'')"
proof -
  let ?w = "run [Start (ex_env 0) ''a'' ex_info] init_world"
  let ?lf = "\<lparr>addr = 0, jsonl = \<lparr>logger_id = 0, is_LogReader = True\<rparr>,
         splunkl = \<lparr>logger_id = 1, is_LogReader = False\<rparr>, stream = 0,
         info = \<lparr>ContainerID = ''c1'', LogPath = ''/var/log/docker/c1'', Config = []\<rparr>\<rparr>"
  have h1: "logs (drv ?w) ''a'' = Some ?lf"
    by (simp add: ex_simps)
  have h2: "''b'' \<noteq> ''a''" by simp
  have h3: "ContainerID ex_info = ContainerID (info ?lf)"
    by (simp add: ex_info_def)
  have h4: "fst (StartLogging (ex_env 1) ''b'' ex_info ?w) = None"
    by (simp add: ex_simps)
  then have h5: "StartLogging (ex_env 1) ''b'' ex_info ?w
       = (None, snd (StartLogging (ex_env 1) ''b'' ex_info ?w))"
    by (metis prod.collapse)
  from StartLogging_supersedes [OF h1 h2 h3 h5] h1 h2 h4
  show ?thesis by simp
qed

text \<open>
  Claim C10. \<open>ReadLogs\<close> leaves \<open>logs\<close> and \<open>idx\<close> as they were, whatever it returns.
\<close>

theorem ReadLogs_frame:
  "logs (drv (snd (ReadLogs ic config w))) = logs (drv w)
   \<and> idx (drv (snd (ReadLogs ic config w))) = idx (drv w)"
  by (simp add: ReadLogs_drv)

end
